theory Spec2Isabelle
  imports Main "HOL-Library.AList"
begin

section \<open>Text: Python strings as lists of code points\<close>

text \<open>
  A Python \<open>str\<close> is a sequence of Unicode code points, so a string is a list of natural
  numbers here (the code point of each character), not a list of bytes. The character
  classes are the ones of CPython's Unicode database (version 14.0.0), given as inclusive
  ranges of code points:
  \<^item> \<open>space_ranges\<close>: the characters for which \<open>str.isspace\<close> holds; \<open>str.strip()\<close>,
    \<open>str.split()\<close> and the regular expression class \<open>\s\<close> use the same test;
  \<^item> \<open>decimal_ranges\<close>: the decimal digits (category Nd), the only characters \<open>int()\<close>
    reads as digits; every range starts at a digit zero and holds whole decades;
  \<^item> \<open>digit_only_ranges\<close>: the characters for which \<open>str.isdigit\<close> holds although they
    are no decimal digits (superscripts, circled digits and the like).
\<close>

type_synonym uchar = nat
type_synonym ustring = "nat list"

definition in_ranges :: "uchar \<Rightarrow> (nat \<times> nat) list \<Rightarrow> bool" where
  "in_ranges c rs = list_ex (\<lambda>(lo, hi). lo \<le> c \<and> c \<le> hi) rs"

definition space_ranges :: "(nat \<times> nat) list" where
  "space_ranges =
    [(9, 13), (28, 32), (133, 133), (160, 160), (5760, 5760), (8192, 8202), (8232, 8233),
     (8239, 8239), (8287, 8287), (12288, 12288)]"

definition decimal_ranges :: "(nat \<times> nat) list" where
  "decimal_ranges =
    [(48, 57), (1632, 1641), (1776, 1785), (1984, 1993), (2406, 2415), (2534, 2543),
     (2662, 2671), (2790, 2799), (2918, 2927), (3046, 3055), (3174, 3183), (3302, 3311),
     (3430, 3439), (3558, 3567), (3664, 3673), (3792, 3801), (3872, 3881), (4160, 4169),
     (4240, 4249), (6112, 6121), (6160, 6169), (6470, 6479), (6608, 6617), (6784, 6793),
     (6800, 6809), (6992, 7001), (7088, 7097), (7232, 7241), (7248, 7257), (42528, 42537),
     (43216, 43225), (43264, 43273), (43472, 43481), (43504, 43513), (43600, 43609),
     (44016, 44025), (65296, 65305), (66720, 66729), (68912, 68921), (69734, 69743),
     (69872, 69881), (69942, 69951), (70096, 70105), (70384, 70393), (70736, 70745),
     (70864, 70873), (71248, 71257), (71360, 71369), (71472, 71481), (71904, 71913),
     (72016, 72025), (72784, 72793), (73040, 73049), (73120, 73129), (92768, 92777),
     (92864, 92873), (93008, 93017), (120782, 120831), (123200, 123209), (123632, 123641),
     (125264, 125273), (130032, 130041)]"

definition digit_only_ranges :: "(nat \<times> nat) list" where
  "digit_only_ranges =
    [(178, 179), (185, 185), (4969, 4977), (6618, 6618), (8304, 8304), (8308, 8313),
     (8320, 8329), (9312, 9320), (9332, 9340), (9352, 9360), (9450, 9450), (9461, 9469),
     (9471, 9471), (10102, 10110), (10112, 10120), (10122, 10130), (68160, 68163),
     (69216, 69224), (69714, 69722), (127232, 127242)]"

definition isspace_ch :: "uchar \<Rightarrow> bool" where
  "isspace_ch c = in_ranges c space_ranges"

text \<open>The value of a decimal digit: its offset in its decade.\<close>

fun decimal_of :: "(nat \<times> nat) list \<Rightarrow> uchar \<Rightarrow> nat option" where
  "decimal_of [] c = None"
| "decimal_of ((lo, hi) # rs) c =
     (if lo \<le> c \<and> c \<le> hi then Some ((c - lo) mod 10) else decimal_of rs c)"

definition decimal_ch :: "uchar \<Rightarrow> nat option" where
  "decimal_ch c = decimal_of decimal_ranges c"

definition isdigit_ch :: "uchar \<Rightarrow> bool" where
  "isdigit_ch c = (decimal_ch c \<noteq> None \<or> in_ranges c digit_only_ranges)"

text \<open>\<open>s.isdigit()\<close>: at least one character, and all of them digits.\<close>

definition str_isdigit :: "ustring \<Rightarrow> bool" where
  "str_isdigit s = (s \<noteq> [] \<and> list_all isdigit_ch s)"

text \<open>\<open>s.isspace()\<close>: at least one character, and all of them whitespace.\<close>

definition str_isspace :: "ustring \<Rightarrow> bool" where
  "str_isspace s = (s \<noteq> [] \<and> list_all isspace_ch s)"

subsection \<open>Conversions between integers and text\<close>

datatype error = ValueError

fun int_digits :: "int \<Rightarrow> ustring \<Rightarrow> int option" where
  "int_digits acc [] = Some acc"
| "int_digits acc (c # cs) =
     (case decimal_ch c of
        None \<Rightarrow> None
      | Some d \<Rightarrow> int_digits (10 * acc + int d) cs)"

text \<open>
  \<open>int(s)\<close> on the strings the program passes to it: those that passed \<open>isdigit\<close>, so
  without sign, blanks or underscores. Such a string is read in base ten when each of its
  characters is a decimal digit; anything else raises \<open>ValueError\<close>. (The length limit
  of conversions that CPython 3.11 added, 4300 digits unless configured otherwise, is
  left out: integers are unbounded here.)
\<close>

definition py_int :: "ustring \<Rightarrow> error + int" where
  "py_int s =
     (if s = [] then Inl ValueError
      else case int_digits 0 s of None \<Rightarrow> Inl ValueError | Some n \<Rightarrow> Inr n)"




section \<open>The entry tokenizer\<close>

text \<open>A record is the triple \<open>(number, unused, name)\<close> of the source.\<close>

type_synonym row = "int \<times> int \<times> ustring"

definition num :: "row \<Rightarrow> int" where
  "num r = fst r"

definition unused :: "row \<Rightarrow> int" where
  "unused r = fst (snd r)"


text \<open>
  \<open>parse_entry_tokens\<close> returns a record, or \<open>None\<close> for tokens it cannot read; an
  exception of \<open>int()\<close> leaves the function, so the result is a sum.
  The indices \<open>tokens ! 1\<close> and \<open>tokens ! 2\<close> are read behind a test of the length,
  as the source does.
\<close>

definition parse_entry_tokens :: "ustring list \<Rightarrow> error + row option" where
  "parse_entry_tokens tokens =
     (if tokens = [] then Inr None
      else if str_isdigit (tokens ! 0) then
        (if length tokens \<ge> 2 \<and> str_isdigit (tokens ! 1) then
           (case py_int (tokens ! 0) of
              Inl e \<Rightarrow> Inl e
            | Inr n \<Rightarrow>
               (case py_int (tokens ! 1) of
                  Inl e \<Rightarrow> Inl e
                | Inr u \<Rightarrow> Inr (Some (n, u, []))))
         else if length tokens = 1 then
           (case py_int (tokens ! 0) of
              Inl e \<Rightarrow> Inl e
            | Inr n \<Rightarrow> Inr (Some (n, 0, [])))
         else Inr None)
      else
        (let name = tokens ! 0 in
         if length tokens \<ge> 2 \<and> str_isdigit (tokens ! 1) then
           (if length tokens \<ge> 3 \<and> str_isdigit (tokens ! 2) then
              (case py_int (tokens ! 1) of
                 Inl e \<Rightarrow> Inl e
               | Inr n \<Rightarrow>
                  (case py_int (tokens ! 2) of
                     Inl e \<Rightarrow> Inl e
                   | Inr u \<Rightarrow> Inr (Some (n, u, name))))
            else
              (case py_int (tokens ! 1) of
                 Inl e \<Rightarrow> Inl e
               | Inr n \<Rightarrow> Inr (Some (n, 0, name))))
         else Inr None))"

section \<open>The format-aware reader\<close>

subsection \<open>String operations of the reader\<close>

text \<open>\<open>s.strip()\<close>: whitespace removed at both ends.\<close>

definition strip :: "ustring \<Rightarrow> ustring" where
  "strip s = rev (dropWhile isspace_ch (rev (dropWhile isspace_ch s)))"

text \<open>\<open>s.split()\<close>: the maximal runs of characters that are not whitespace. The first
  argument of \<open>split_aux\<close> is the token being read, reversed.\<close>

fun split_aux :: "ustring \<Rightarrow> ustring \<Rightarrow> ustring list" where
  "split_aux cur [] = (if cur = [] then [] else [rev cur])"
| "split_aux cur (c # cs) =
     (if isspace_ch c then (if cur = [] then split_aux [] cs else rev cur # split_aux [] cs)
      else split_aux (c # cur) cs)"

definition py_split :: "ustring \<Rightarrow> ustring list" where
  "py_split s = split_aux [] s"

text \<open>\<open>s.startswith(p)\<close> and \<open>sub in s\<close>.\<close>

fun startswith :: "ustring \<Rightarrow> ustring \<Rightarrow> bool" where
  "startswith s [] = True"
| "startswith [] (p # ps) = False"
| "startswith (c # cs) (p # ps) = (c = p \<and> startswith cs ps)"

fun contains :: "ustring \<Rightarrow> ustring \<Rightarrow> bool" where
  "contains sub [] = (sub = [])"
| "contains sub (c # cs) = (startswith (c # cs) sub \<or> contains sub cs)"

text \<open>
  \<open>re.split(r'(?:\t{2,}|\s{3,})', raw_line)\<close>. At a position of the line the pattern
  matches the whole run of tabs that starts there when it has two tabs or more, and
  otherwise the whole run of whitespace that starts there when it has three characters or
  more; \<open>sep_len\<close> is the length of that match, 0 for none. The split takes the leftmost
  match, cuts there and goes on behind it.
\<close>

definition sep_len :: "ustring \<Rightarrow> nat" where
  "sep_len s =
     (let t = length (takeWhile (\<lambda>c. c = 9) s) in
      if t \<ge> 2 then t
      else let w = length (takeWhile isspace_ch s) in
           if w \<ge> 3 then w else 0)"

function re_split_aux :: "ustring \<Rightarrow> ustring \<Rightarrow> ustring list" where
  "re_split_aux cur [] = [rev cur]"
| "re_split_aux cur (c # cs) =
     (if sep_len (c # cs) > 0
      then rev cur # re_split_aux [] (drop (sep_len (c # cs)) (c # cs))
      else re_split_aux (c # cur) cs)"
  by pat_completeness auto
termination
  by (relation "measure (\<lambda>(cur, s). length s)") auto

definition re_split :: "ustring \<Rightarrow> ustring list" where
  "re_split s = re_split_aux [] s"

text \<open>
  The lines of the file, as \<open>[ln.rstrip("\n") for ln in f]\<close> gives them. The argument
  is the decoded text of the file. Reading in text mode turns \<open>\r\n\<close> and \<open>\r\<close> into
  \<open>\n\<close>; a line ends at each \<open>\n\<close>, and a last line without one counts when it is not
  empty.
\<close>

fun translate_newlines :: "ustring \<Rightarrow> ustring" where
  "translate_newlines [] = []"
| "translate_newlines [c] = (if c = 13 then [10] else [c])"
| "translate_newlines (c # c' # cs) =
     (if c = 13 \<and> c' = 10 then 10 # translate_newlines cs
      else if c = 13 then 10 # translate_newlines (c' # cs)
      else c # translate_newlines (c' # cs))"

fun split_lines_aux :: "ustring \<Rightarrow> ustring \<Rightarrow> ustring list" where
  "split_lines_aux cur [] = (if cur = [] then [] else [rev cur])"
| "split_lines_aux cur (c # cs) =
     (if c = 10 then rev cur # split_lines_aux [] cs else split_lines_aux (c # cur) cs)"

definition file_lines :: "ustring \<Rightarrow> ustring list" where
  "file_lines text = split_lines_aux [] (translate_newlines text)"

subsection \<open>The roster and the two layouts\<close>

text \<open>
  The roster is the dictionary \<open>tables\<close> from the table names \<open>"C1"\<close> and \<open>"C2"\<close> to
  their rows.
\<close>

type_synonym roster = "ustring \<rightharpoonup> row list"

definition key_C1 :: ustring where
  "key_C1 = [67, 49]"

definition key_C2 :: ustring where
  "key_C2 = [67, 50]"

text \<open>The header marker of the source, the two characters U+8F66 U+53F7 ("che hao", car
  number).\<close>

definition marker :: ustring where
  "marker = [36710, 21495]"

text \<open>\<open>tables.get(key, [])\<close>\<close>

definition get_table :: "roster \<Rightarrow> ustring \<Rightarrow> row list" where
  "get_table tables key = (case tables key of None \<Rightarrow> [] | Some rows \<Rightarrow> rows)"

text \<open>\<open>tables[key].append(rec)\<close>; the reader only uses keys that are in \<open>tables\<close>.\<close>

definition append_row :: "roster \<Rightarrow> ustring \<Rightarrow> row \<Rightarrow> roster" where
  "append_row tables key r = tables(key \<mapsto> get_table tables key @ [r])"

text \<open>Tokens are parsed and the record, if there is one, is appended to the table \<open>key\<close>.\<close>

definition add_parsed :: "roster \<Rightarrow> ustring \<Rightarrow> ustring list \<Rightarrow> error + roster" where
  "add_parsed tables key toks =
     (case parse_entry_tokens toks of
        Inl e \<Rightarrow> Inl e
      | Inr None \<Rightarrow> Inr tables
      | Inr (Some r) \<Rightarrow> Inr (append_row tables key r))"

text \<open>One turn of the loop of the side-by-side branch.\<close>

definition side_by_side_line :: "roster \<Rightarrow> ustring \<Rightarrow> error + roster" where
  "side_by_side_line tables raw_line =
     (if strip raw_line = [] then Inr tables
      else
        (let stripped = strip raw_line in
         if contains marker stripped then Inr tables
         else if contains key_C1 stripped \<and> contains key_C2 stripped
                 \<and> \<not> list_ex isdigit_ch stripped then Inr tables
         else if str_isspace (take 1 raw_line) then
           add_parsed tables key_C2 (py_split stripped)
         else
           (let parts = re_split raw_line in
            if length parts \<ge> 2 then
              (case add_parsed tables key_C1 (py_split (strip (parts ! 0))) of
                 Inl e \<Rightarrow> Inl e
               | Inr tables' \<Rightarrow> add_parsed tables' key_C2 (py_split (strip (parts ! 1))))
            else add_parsed tables key_C1 (py_split stripped))))"

fun read_side_by_side :: "roster \<Rightarrow> ustring list \<Rightarrow> error + roster" where
  "read_side_by_side tables [] = Inr tables"
| "read_side_by_side tables (raw_line # lines) =
     (case side_by_side_line tables raw_line of
        Inl e \<Rightarrow> Inl e
      | Inr tables' \<Rightarrow> read_side_by_side tables' lines)"

text \<open>One turn of the loop of the sequential branch; the state holds \<open>current_key\<close>.\<close>

definition sequential_line ::
  "roster \<times> ustring option \<Rightarrow> ustring \<Rightarrow> error + (roster \<times> ustring option)" where
  "sequential_line st ln =
     (case st of (tables, current_key) \<Rightarrow>
        (let line = strip ln in
         if line = [] then Inr st
         else if line = key_C1 \<or> line = key_C2 then Inr (tables, Some line)
         else if startswith line marker then Inr st
         else
           (case current_key of
              None \<Rightarrow> Inr st
            | Some key \<Rightarrow>
               (case add_parsed tables key (py_split line) of
                  Inl e \<Rightarrow> Inl e
                | Inr tables' \<Rightarrow> Inr (tables', current_key)))))"

fun read_sequential ::
  "roster \<times> ustring option \<Rightarrow> ustring list \<Rightarrow> error + (roster \<times> ustring option)" where
  "read_sequential st [] = Inr st"
| "read_sequential st (ln # lines) =
     (case sequential_line st ln of
        Inl e \<Rightarrow> Inl e
      | Inr st' \<Rightarrow> read_sequential st' lines)"

text \<open>\<open>any(("C1" in ln and "C2" in ln) for ln in lines if ln.strip())\<close>\<close>

definition is_side_by_side :: "ustring list \<Rightarrow> bool" where
  "is_side_by_side lines =
     list_ex (\<lambda>ln. contains key_C1 ln \<and> contains key_C2 ln) (filter (\<lambda>ln. strip ln \<noteq> []) lines)"

definition sort_tables :: "roster \<Rightarrow> roster" where
  "sort_tables tables =
     (let tables' = tables(key_C1 \<mapsto> sort_key num (get_table tables key_C1))
      in tables'(key_C2 \<mapsto> sort_key num (get_table tables' key_C2)))"

text \<open>\<open>read_tables_from_txt\<close>, from the text of the file to the roster.\<close>

definition read_tables_from_txt :: "ustring \<Rightarrow> error + roster" where
  "read_tables_from_txt text =
     (let tables = [key_C1 \<mapsto> [], key_C2 \<mapsto> []];
          lines = file_lines text
      in if is_side_by_side lines then
           (case read_side_by_side tables lines of
              Inl e \<Rightarrow> Inl e
            | Inr tables' \<Rightarrow> Inr (sort_tables tables'))
         else
           (case read_sequential (tables, None) lines of
              Inl e \<Rightarrow> Inl e
            | Inr (tables', _) \<Rightarrow> Inr (sort_tables tables')))"

text \<open>One table of the roster read from a text: \<open>read_tables_from_txt(path)[key]\<close>.\<close>

definition read_table :: "ustring \<Rightarrow> ustring \<Rightarrow> error + row list" where
  "read_table text key =
     (case read_tables_from_txt text of
        Inl e \<Rightarrow> Inl e
      | Inr tables \<Rightarrow> Inr (get_table tables key))"

section \<open>The fixed-layout writer\<close>












section \<open>The reconciliation engine\<close>

text \<open>
  A Python \<open>dict\<close> keeps its keys in the order of their first insertion: it is an
  association list with distinct keys. \<open>AList.update\<close> overwrites the value of a key in
  place and appends a new key at the end, as \<open>d[k] = v\<close> does, and \<open>AList.delete\<close> is
  \<open>del d[k]\<close>; \<open>map_of\<close> is the lookup.
\<close>

type_synonym table_dict = "(int \<times> (int \<times> ustring)) list"

text \<open>\<open>{num: (unused, name) for (num, unused, name) in rows}\<close>\<close>

definition dict_of_rows :: "row list \<Rightarrow> table_dict" where
  "dict_of_rows rows = foldl (\<lambda>d (n, u, nm). AList.update n (u, nm) d) [] rows"

text \<open>\<open>sorted([(num, unused, name) for num, (unused, name) in d.items()], key=lambda x: x[0])\<close>;
  Python's \<open>sorted\<close> is stable, as \<open>sort_key\<close> is.\<close>

definition rows_of_dict :: "table_dict \<Rightarrow> row list" where
  "rows_of_dict d = sort_key num (map (\<lambda>(n, (u, nm)). (n, u, nm)) d)"

text \<open>
  The first loop of \<open>update_table_rows\<close>, over a snapshot of the keys: a number that was
  not reported gets its count incremented, or is noted for deletion when the new count
  reaches the threshold. The lookup \<open>d[num]\<close> cannot fail, since the keys are those of
  \<open>d\<close> and nothing is removed inside this loop; the branch for a missing key leaves the
  state as it is.
\<close>

fun increment_absent_loop ::
  "int list \<Rightarrow> int \<Rightarrow> table_dict \<Rightarrow> int list \<Rightarrow> int list \<Rightarrow> table_dict \<times> int list" where
  "increment_absent_loop new_set max_unused d to_delete [] = (d, to_delete)"
| "increment_absent_loop new_set max_unused d to_delete (k # ks) =
     (if k \<notin> set new_set then
        (case map_of d k of
           None \<Rightarrow> increment_absent_loop new_set max_unused d to_delete ks
         | Some (old_unused, old_name) \<Rightarrow>
            (let new_unused = old_unused + 1 in
             if new_unused \<ge> max_unused
             then increment_absent_loop new_set max_unused d (to_delete @ [k]) ks
             else increment_absent_loop new_set max_unused
                    (AList.update k (new_unused, old_name) d) to_delete ks))
      else increment_absent_loop new_set max_unused d to_delete ks)"

fun delete_keys :: "table_dict \<Rightarrow> int list \<Rightarrow> table_dict" where
  "delete_keys d [] = d"
| "delete_keys d (k # ks) = delete_keys (AList.delete k d) ks"

text \<open>The last loop: every reported number gets the count 0; a new one the empty name.\<close>

fun reset_observed :: "table_dict \<Rightarrow> int list \<Rightarrow> table_dict" where
  "reset_observed d [] = d"
| "reset_observed d (n # ns) =
     (case map_of d n of
        Some (_, old_name) \<Rightarrow> reset_observed (AList.update n (0, old_name) d) ns
      | None \<Rightarrow> reset_observed (AList.update n (0, []) d) ns)"

text \<open>
  \<open>update_table_rows(rows, new_numbers, max_unused, increment_absent)\<close>. The set
  \<open>new_set\<close> is iterated in the order of \<open>remdups new_numbers\<close>; Python fixes no order
  for a set, and the result does not depend on it, being sorted by the keys.
\<close>

definition update_table_rows :: "row list \<Rightarrow> int list \<Rightarrow> int \<Rightarrow> bool \<Rightarrow> row list" where
  "update_table_rows rows new_numbers max_unused increment_absent =
     (let d = dict_of_rows rows;
          new_set = remdups new_numbers;
          d1 = (if increment_absent then
                  (case increment_absent_loop new_set max_unused d [] (map fst d) of
                     (d', to_delete) \<Rightarrow> delete_keys d' to_delete)
                else d)
      in rows_of_dict (reset_observed d1 new_set))"

text \<open>
  \<open>set_single_entry\<close>: the work on the rows of the chosen table first, then the function
  itself, which stores the result under \<open>table_key\<close> (a missing key starts from the empty
  table). \<open>name or ""\<close> is \<open>name\<close>, and \<open>name if name else old_name\<close> tests for the
  empty string.
\<close>

definition set_single_rows :: "row list \<Rightarrow> int \<Rightarrow> int \<Rightarrow> ustring \<Rightarrow> int \<Rightarrow> row list" where
  "set_single_rows rows car_no new_unused name max_unused =
     (let d = dict_of_rows rows;
          d' = (if new_unused \<ge> max_unused then
                  (if map_of d car_no \<noteq> None then AList.delete car_no d else d)
                else
                  (case map_of d car_no of
                     None \<Rightarrow> AList.update car_no (new_unused, name) d
                   | Some (_, old_name) \<Rightarrow>
                       AList.update car_no (new_unused, if name \<noteq> [] then name else old_name) d))
      in rows_of_dict d')"

definition set_single_entry ::
  "roster \<Rightarrow> ustring \<Rightarrow> int \<Rightarrow> int \<Rightarrow> ustring \<Rightarrow> int \<Rightarrow> roster" where
  "set_single_entry tables table_key car_no new_unused name max_unused =
     tables(table_key \<mapsto> set_single_rows (get_table tables table_key) car_no new_unused name max_unused)"

text \<open>
  \<open>delete_entry\<close> after its prompts: \<open>key\<close> is the chosen table and \<open>nums\<close> the numbers
  read from the console. Without a number nothing changes; otherwise the rows whose number
  is listed are filtered out and the rest is sorted.
\<close>

definition delete_rows :: "row list \<Rightarrow> int list \<Rightarrow> row list" where
  "delete_rows rows nums = sort_key num (filter (\<lambda>r. num r \<notin> set nums) rows)"

definition delete_entry :: "roster \<Rightarrow> ustring \<Rightarrow> int list \<Rightarrow> roster" where
  "delete_entry tables key nums =
     (if nums = [] then tables
      else tables(key \<mapsto> delete_rows (get_table tables key) nums))"

definition removed_count :: "roster \<Rightarrow> ustring \<Rightarrow> int list \<Rightarrow> int" where
  "removed_count tables key nums =
     int (length (get_table tables key)) - int (length (get_table (delete_entry tables key nums) key))"

text \<open>A table is strictly ascending when its numbers grow from each row to the next.\<close>

definition strictly_ascending :: "row list \<Rightarrow> bool" where
  "strictly_ascending rows = sorted_wrt (<) (map num rows)"

text \<open>A table is ascending when its numbers never fall; equal numbers may follow each other.\<close>

definition ascending :: "row list \<Rightarrow> bool" where
  "ascending rows = sorted (map num rows)"

text \<open>The bound on the counts: every record has a count from 0 up to, but not reaching,
  the threshold.\<close>

definition idle_bounded :: "int \<Rightarrow> row list \<Rightarrow> bool" where
  "idle_bounded expiry rows = list_all (\<lambda>r. 0 \<le> unused r \<and> unused r < expiry) rows"

text \<open>A property of the records that holds for every record of every table of a roster.\<close>

definition all_rows :: "(row \<Rightarrow> bool) \<Rightarrow> roster \<Rightarrow> bool" where
  "all_rows P tables = (\<forall>key. list_all P (get_table tables key))"

section \<open>Notions for the round trip of writer and reader\<close>










section \<open>Properties of the tokenizer\<close>

lemmas char_class_defs =
  str_isdigit_def isdigit_ch_def decimal_ch_def decimal_ranges_def digit_only_ranges_def
  in_ranges_def

text \<open>
  C8. The tokenizer resolves its input in the order of the source. An integer token is
  one that passes \<open>isdigit\<close>, the test of the source. The four examples of the
  specification come out as stated, with the name \<open>nm\<close> of two characters U+5F20 U+4E09
  (code points 24352 and 19977): \<open>[nm, "15", "2"]\<close> is \<open>(15, 2, nm)\<close>,
  \<open>["15", "2"]\<close> is \<open>(15, 2, "")\<close>, \<open>["15"]\<close> is \<open>(15, 0, "")\<close> and
  \<open>[nm, "abc"]\<close> is no match. In general the empty list is no match; a leading integer
  token followed by a token that is no integer is no match; a leading name that is not
  followed by an integer token is no match; and where the count is absent (one integer
  token alone, a name and one integer token, or a name, an integer token and a third token
  that is no integer) the count of the record is 0.
\<close>

theorem tokenizer_resolution:
  "parse_entry_tokens [[24352, 19977], [49, 53], [50]] = Inr (Some (15, 2, [24352, 19977]))
   \<and> parse_entry_tokens [[49, 53], [50]] = Inr (Some (15, 2, []))
   \<and> parse_entry_tokens [[49, 53]] = Inr (Some (15, 0, []))
   \<and> parse_entry_tokens [[24352, 19977], [97, 98, 99]] = Inr None
   \<and> parse_entry_tokens [] = Inr None
   \<and> (str_isdigit t \<and> \<not> str_isdigit t' \<longrightarrow> parse_entry_tokens (t # t' # ts) = Inr None)
   \<and> (\<not> str_isdigit t \<longrightarrow> parse_entry_tokens [t] = Inr None)
   \<and> (\<not> str_isdigit t \<and> \<not> str_isdigit t' \<longrightarrow> parse_entry_tokens (t # t' # ts) = Inr None)
   \<and> (str_isdigit t \<and> py_int t = Inr n \<longrightarrow> parse_entry_tokens [t] = Inr (Some (n, 0, [])))
   \<and> (\<not> str_isdigit t \<and> str_isdigit t' \<and> py_int t' = Inr n
        \<longrightarrow> parse_entry_tokens [t, t'] = Inr (Some (n, 0, t)))
   \<and> (\<not> str_isdigit t \<and> str_isdigit t' \<and> py_int t' = Inr n \<and> \<not> str_isdigit t''
        \<longrightarrow> parse_entry_tokens (t # t' # t'' # ts) = Inr (Some (n, 0, t)))"
proof -
  have ex: "parse_entry_tokens [[24352, 19977], [49, 53], [50]] = Inr (Some (15, 2, [24352, 19977]))"
    "parse_entry_tokens [[49, 53], [50]] = Inr (Some (15, 2, []))"
    "parse_entry_tokens [[49, 53]] = Inr (Some (15, 0, []))"
    "parse_entry_tokens [[24352, 19977], [97, 98, 99]] = Inr None"
    by (simp_all add: parse_entry_tokens_def char_class_defs py_int_def)
  have gen: "parse_entry_tokens [] = Inr None"
    "str_isdigit t \<and> \<not> str_isdigit t' \<longrightarrow> parse_entry_tokens (t # t' # ts) = Inr None"
    "\<not> str_isdigit t \<longrightarrow> parse_entry_tokens [t] = Inr None"
    "\<not> str_isdigit t \<and> \<not> str_isdigit t' \<longrightarrow> parse_entry_tokens (t # t' # ts) = Inr None"
    "str_isdigit t \<and> py_int t = Inr n \<longrightarrow> parse_entry_tokens [t] = Inr (Some (n, 0, []))"
    "\<not> str_isdigit t \<and> str_isdigit t' \<and> py_int t' = Inr n
        \<longrightarrow> parse_entry_tokens [t, t'] = Inr (Some (n, 0, t))"
    "\<not> str_isdigit t \<and> str_isdigit t' \<and> py_int t' = Inr n \<and> \<not> str_isdigit t''
        \<longrightarrow> parse_entry_tokens (t # t' # t'' # ts) = Inr (Some (n, 0, t))"
    by (simp_all add: parse_entry_tokens_def)
  from ex gen show ?thesis by blast
qed

theorem tokenizer_resolution_witness:
  "str_isdigit [49, 53] \<and> \<not> str_isdigit [97] \<and> \<not> str_isdigit [24352, 19977]
   \<and> py_int [49, 53] = Inr 15
   \<and> parse_entry_tokens [[49, 53], [97], [50]] = Inr None
   \<and> parse_entry_tokens [[24352, 19977]] = Inr None
   \<and> parse_entry_tokens [[24352, 19977], [97], [49, 53]] = Inr None
   \<and> parse_entry_tokens [[49, 53]] = Inr (Some (15, 0, []))
   \<and> parse_entry_tokens [[24352, 19977], [49, 53]] = Inr (Some (15, 0, [24352, 19977]))
   \<and> parse_entry_tokens [[24352, 19977], [49, 53], [97], [50]] = Inr (Some (15, 0, [24352, 19977]))"
proof -
  have h: "str_isdigit [49, 53]" "\<not> str_isdigit [97]" "\<not> str_isdigit [24352, 19977]"
    "py_int [49, 53] = Inr 15"
    by (simp_all add: char_class_defs py_int_def)
  have a: "parse_entry_tokens [[49, 53], [97], [50]] = Inr None"
    "parse_entry_tokens [[49, 53]] = Inr (Some (15, 0, []))"
    using h tokenizer_resolution [of "[49, 53]" "[97]" "[[50]]" 15 "[97]"] by simp_all
  have b: "parse_entry_tokens [[24352, 19977]] = Inr None"
    "parse_entry_tokens [[24352, 19977], [97], [49, 53]] = Inr None"
    using h tokenizer_resolution [of "[24352, 19977]" "[97]" "[[49, 53]]" 15 "[97]"] by simp_all
  have c: "parse_entry_tokens [[24352, 19977], [49, 53]] = Inr (Some (15, 0, [24352, 19977]))"
    "parse_entry_tokens [[24352, 19977], [49, 53], [97], [50]] = Inr (Some (15, 0, [24352, 19977]))"
    using h tokenizer_resolution [of "[24352, 19977]" "[49, 53]" "[[50]]" 15 "[97]"] by simp_all
  from h a b c show ?thesis by simp
qed

text \<open>
  C9. The tokenizer is meant to return a record or \<open>None\<close> for every list of tokens and
  never to raise. The source guards \<open>int()\<close> with \<open>isdigit()\<close>, which also accepts
  digits that are no decimal digits: on the single token of the one character U+00B2 (superscript two)
  \<open>isdigit\<close> holds and \<open>int\<close> raises \<open>ValueError\<close>, which leaves the tokenizer.
\<close>

theorem tokenizer_raises_on_superscript_digit:
  "parse_entry_tokens [[178]] = Inl ValueError"
  by (simp add: parse_entry_tokens_def char_class_defs py_int_def)

text \<open>Where every token that passes \<open>isdigit\<close> is made of decimal digits, the tokenizer
  returns.\<close>

lemma int_digits_decimal:
  "list_all (\<lambda>c. decimal_ch c \<noteq> None) s \<Longrightarrow> \<exists>n. int_digits acc s = Some n"
  by (induction s arbitrary: acc) (auto split: option.splits)

lemma py_int_decimal:
  "s \<noteq> [] \<Longrightarrow> list_all (\<lambda>c. decimal_ch c \<noteq> None) s \<Longrightarrow> \<exists>n. py_int s = Inr n"
  using int_digits_decimal [of s 0] by (auto simp: py_int_def)

lemma parse_entry_tokens_returns:
  assumes "\<forall>t \<in> set tokens. str_isdigit t \<longrightarrow> list_all (\<lambda>c. decimal_ch c \<noteq> None) t"
  shows "\<exists>r. parse_entry_tokens tokens = Inr r"
proof -
  have conv: "\<And>i. i < length tokens \<Longrightarrow> str_isdigit (tokens ! i) \<Longrightarrow> \<exists>n. py_int (tokens ! i) = Inr n"
    using assms by (auto intro!: py_int_decimal simp: str_isdigit_def)
  show ?thesis
  proof (cases "tokens = []")
    case True
    then show ?thesis by (simp add: parse_entry_tokens_def)
  next
    case False
    then have l0: "0 < length tokens" by simp
    show ?thesis
      using conv [of 0] conv [of 1] conv [of 2] l0
      by (auto simp: parse_entry_tokens_def Let_def split: sum.splits)
  qed
qed

lemma int_digits_nonneg: "int_digits acc s = Some n \<Longrightarrow> 0 \<le> acc \<Longrightarrow> 0 \<le> n"
  by (induction s arbitrary: acc) (auto split: option.splits)

lemma py_int_nonneg: "py_int s = Inr n \<Longrightarrow> 0 \<le> n"
  using int_digits_nonneg [of 0 s n] by (auto simp: py_int_def split: if_splits option.splits)

lemma parse_entry_tokens_nonneg:
  "parse_entry_tokens tokens = Inr (Some r) \<Longrightarrow> 0 \<le> num r \<and> 0 \<le> unused r"
  by (auto simp: parse_entry_tokens_def Let_def num_def unused_def
           split: if_splits sum.splits dest: py_int_nonneg)

section \<open>The working map of the engine\<close>

text \<open>Each loop of the engine is described by what a lookup in the map gives after it.\<close>



lemma map_of_delete_keys: "map_of (delete_keys d ks) k = (if k \<in> set ks then None else map_of d k)"
  by (induction ks arbitrary: d) (auto simp: delete_conv')

lemma distinct_delete_keys: "distinct (map fst d) \<Longrightarrow> distinct (map fst (delete_keys d ks))"
  by (induction ks arbitrary: d) (auto simp: distinct_delete)

lemma map_of_reset_observed:
  "map_of (reset_observed d ns) k =
     (if k \<in> set ns then Some (0, case map_of d k of Some (u, nm) \<Rightarrow> nm | None \<Rightarrow> [])
      else map_of d k)"
  by (induction ns arbitrary: d) (auto simp: update_conv' split: option.splits)

lemma distinct_reset_observed: "distinct (map fst d) \<Longrightarrow> distinct (map fst (reset_observed d ns))"
  by (induction ns arbitrary: d) (auto simp: distinct_update split: option.splits)

lemma increment_absent_loop_lookup:
  "distinct ks \<Longrightarrow> increment_absent_loop new mx d td ks = (d', td') \<Longrightarrow>
     map_of d' k =
       (if k \<in> set ks \<and> k \<notin> set new then
          (case map_of d k of
             None \<Rightarrow> None
           | Some (u, nm) \<Rightarrow> if u + 1 \<ge> mx then Some (u, nm) else Some (u + 1, nm))
        else map_of d k)"
  by (induction ks arbitrary: d td) (auto simp: update_conv' Let_def split: option.splits if_splits)

lemma increment_absent_loop_deleted:
  "distinct ks \<Longrightarrow> increment_absent_loop new mx d td ks = (d', td') \<Longrightarrow>
     set td' = set td \<union> {k \<in> set ks. k \<notin> set new \<and> (\<exists>u nm. map_of d k = Some (u, nm) \<and> u + 1 \<ge> mx)}"
  by (induction ks arbitrary: d td) (auto simp: update_conv' Let_def split: option.splits if_splits)

lemma increment_absent_loop_keys:
  "increment_absent_loop new mx d td ks = (d', td') \<Longrightarrow> map fst d' = map fst d"
proof (induction ks arbitrary: d td)
  case Nil
  then show ?case by simp
next
  case (Cons k ks)
  show ?case
  proof (cases "k \<notin> set new \<and> (\<exists>u nm. map_of d k = Some (u, nm) \<and> \<not> u + 1 \<ge> mx)")
    case True
    then obtain u nm where m: "map_of d k = Some (u, nm)" and lt: "\<not> u + 1 \<ge> mx" and nn: "k \<notin> set new"
      by blast
    from m have "k \<in> fst ` set d" by (auto dest: map_of_SomeD intro: rev_image_eqI)
    then have keys: "map fst (AList.update k (u + 1, nm) d) = map fst d"
      by (simp add: update_keys)
    from Cons.prems m lt nn
    have "increment_absent_loop new mx (AList.update k (u + 1, nm) d) td ks = (d', td')"
      by (simp add: Let_def)
    from Cons.IH [OF this] keys show ?thesis by simp
  next
    case False
    with Cons.prems have "increment_absent_loop new mx d td ks = (d', td')
        \<or> increment_absent_loop new mx d (td @ [k]) ks = (d', td')"
      by (auto simp: Let_def split: option.splits if_splits)
    then show ?thesis using Cons.IH by blast
  qed
qed

lemma dict_of_rows_aux:
  "distinct (map fst acc) \<Longrightarrow>
     distinct (map fst (foldl (\<lambda>d (n, u, nm). AList.update n (u, nm) d) acc rows))"
  by (induction rows arbitrary: acc) (auto simp: distinct_update)

lemma distinct_dict_of_rows: "distinct (map fst (dict_of_rows rows))"
  by (simp add: dict_of_rows_def dict_of_rows_aux)


lemma map_of_foldl_update:
  "map_of (foldl (\<lambda>d (n, u, nm). AList.update n (u, nm) d) acc rows) k =
     (case map_of (rev (map (\<lambda>(n, u, nm). (n, (u, nm))) rows)) k of
        None \<Rightarrow> map_of acc k
      | Some v \<Rightarrow> Some v)"
  by (induction rows arbitrary: acc)
     (auto simp: update_conv' map_add_def split: option.splits)

lemma map_of_dict_of_rows:
  "map_of (dict_of_rows rows) k = map_of (rev (map (\<lambda>(n, u, nm). (n, (u, nm))) rows)) k"
  by (simp add: dict_of_rows_def map_of_foldl_update split: option.splits)

lemma dict_of_rows_SomeD:
  "map_of (dict_of_rows rows) n = Some (u, nm) \<Longrightarrow> (n, u, nm) \<in> set rows"
  by (auto simp: map_of_dict_of_rows dest!: map_of_SomeD)

lemma dict_of_rows_None: "map_of (dict_of_rows rows) n = None \<longleftrightarrow> n \<notin> num ` set rows"
  by (force simp: map_of_dict_of_rows map_of_eq_None_iff num_def image_iff)

lemma dict_of_rows_distinct:
  assumes "distinct (map num rows)"
  shows "map_of (dict_of_rows rows) n = Some (u, nm) \<longleftrightarrow> (n, u, nm) \<in> set rows"
proof -
  have eq: "map fst (map (\<lambda>(n, u, nm). (n, (u, nm))) rows) = map num rows"
    by (induction rows) (auto simp: num_def)
  have "distinct (rev (map fst (map (\<lambda>(n, u, nm). (n, (u, nm))) rows)))"
    using assms by (simp only: eq distinct_rev)
  then have "distinct (map fst (rev (map (\<lambda>(n, u, nm). (n, (u, nm))) rows)))"
    by (simp only: rev_map)
  then have "map_of (rev (map (\<lambda>(n, u, nm). (n, (u, nm))) rows)) n = Some (u, nm)
      \<longleftrightarrow> (n, (u, nm)) \<in> set (rev (map (\<lambda>(n, u, nm). (n, (u, nm))) rows))"
    by simp
  then show ?thesis by (force simp: map_of_dict_of_rows)
qed

lemma set_rows_of_dict: "set (rows_of_dict d) = (\<lambda>(n, (u, nm)). (n, u, nm)) ` set d"
  by (simp add: rows_of_dict_def)

lemma num_rows_of_dict: "map num (map (\<lambda>(n, (u, nm)). (n, u, nm)) d) = map fst d"
  by (induction d) (auto simp: num_def)

lemma strictly_ascending_rows_of_dict:
  assumes "distinct (map fst d)"
  shows "strictly_ascending (rows_of_dict d)"
proof -
  let ?xs = "map (\<lambda>(n, (u, nm)). (n, u, nm)) d"
  have "distinct (map num ?xs)" using assms by (simp only: num_rows_of_dict)
  then have "distinct (map num (sort_key num ?xs))"
    by (simp add: distinct_map)
  moreover have "sorted (map num (sort_key num ?xs))" by simp
  ultimately show ?thesis
    unfolding strictly_ascending_def rows_of_dict_def
    by (simp add: strict_sorted_iff)
qed

lemma mem_rows_of_dict:
  "distinct (map fst d) \<Longrightarrow> (n, u, nm) \<in> set (rows_of_dict d) \<longleftrightarrow> map_of d n = Some (u, nm)"
  by (force simp: set_rows_of_dict)

text \<open>The working map of \<open>update_table_rows\<close> before it is turned into rows.\<close>

lemma update_table_rows_dict:
  "\<exists>d. update_table_rows rows new mx inc = rows_of_dict d \<and> distinct (map fst d) \<and>
       (\<forall>k. map_of d k =
          (if k \<in> set new then
             Some (0, case map_of (dict_of_rows rows) k of Some (u, nm) \<Rightarrow> nm | None \<Rightarrow> [])
           else if inc then
             (case map_of (dict_of_rows rows) k of
                None \<Rightarrow> None
              | Some (u, nm) \<Rightarrow> if u + 1 \<ge> mx then None else Some (u + 1, nm))
           else map_of (dict_of_rows rows) k))"
proof (cases inc)
  case False
  let ?d = "reset_observed (dict_of_rows rows) (remdups new)"
  have "update_table_rows rows new mx inc = rows_of_dict ?d"
    using False by (simp add: update_table_rows_def)
  moreover have "distinct (map fst ?d)"
    by (simp add: distinct_reset_observed distinct_dict_of_rows)
  moreover have "\<forall>k. map_of ?d k =
      (if k \<in> set new then
         Some (0, case map_of (dict_of_rows rows) k of Some (u, nm) \<Rightarrow> nm | None \<Rightarrow> [])
       else map_of (dict_of_rows rows) k)"
    by (simp add: map_of_reset_observed)
  ultimately show ?thesis using False by auto
next
  case True
  let ?orig = "dict_of_rows rows"
  obtain d' td where loop:
    "increment_absent_loop (remdups new) mx ?orig [] (map fst ?orig) = (d', td)"
    by (cases "increment_absent_loop (remdups new) mx ?orig [] (map fst ?orig)") auto
  let ?pruned = "delete_keys d' td"
  let ?d = "reset_observed ?pruned (remdups new)"
  have dk: "distinct (map fst ?orig)" by (rule distinct_dict_of_rows)
  have res: "update_table_rows rows new mx inc = rows_of_dict ?d"
    using True loop by (simp add: update_table_rows_def)
  have "map fst d' = map fst ?orig" by (rule increment_absent_loop_keys [OF loop])
  then have "distinct (map fst d')" using dk by simp
  then have dist: "distinct (map fst ?d)"
    by (rule distinct_reset_observed [OF distinct_delete_keys])
  have look: "\<And>k. map_of d' k =
       (if k \<in> set (map fst ?orig) \<and> k \<notin> set (remdups new) then
          (case map_of ?orig k of
             None \<Rightarrow> None
           | Some (u, nm) \<Rightarrow> if u + 1 \<ge> mx then Some (u, nm) else Some (u + 1, nm))
        else map_of ?orig k)"
    by (rule increment_absent_loop_lookup [OF dk loop])
  have del: "set td = {k \<in> set (map fst ?orig). k \<notin> set (remdups new) \<and>
        (\<exists>u nm. map_of ?orig k = Some (u, nm) \<and> u + 1 \<ge> mx)}"
    using increment_absent_loop_deleted [OF dk loop] by simp
  have keys: "\<And>k. k \<in> set (map fst ?orig) \<longleftrightarrow> map_of ?orig k \<noteq> None"
    by (simp add: map_of_eq_None_iff)
  have "\<forall>k. map_of ?d k =
      (if k \<in> set new then
         Some (0, case map_of ?orig k of Some (u, nm) \<Rightarrow> nm | None \<Rightarrow> [])
       else (case map_of ?orig k of
                None \<Rightarrow> None
              | Some (u, nm) \<Rightarrow> if u + 1 \<ge> mx then None else Some (u + 1, nm)))"
  proof
    fix k
    show "map_of ?d k =
      (if k \<in> set new then
         Some (0, case map_of ?orig k of Some (u, nm) \<Rightarrow> nm | None \<Rightarrow> [])
       else (case map_of ?orig k of
                None \<Rightarrow> None
              | Some (u, nm) \<Rightarrow> if u + 1 \<ge> mx then None else Some (u + 1, nm)))"
    proof (cases "k \<in> set new")
      case True
      then have "k \<notin> set td" using del by simp
      with True show ?thesis
        by (simp add: map_of_reset_observed map_of_delete_keys look)
    next
      case False
      show ?thesis
      proof (cases "map_of ?orig k")
        case None
        then have "k \<notin> set td" using del by simp
        with False None show ?thesis
          by (simp add: map_of_reset_observed map_of_delete_keys look)
      next
        case (Some v)
        obtain u nm where v: "v = (u, nm)" by (cases v)
        have kin: "k \<in> set (map fst ?orig)" using Some keys by simp
        have "k \<in> set td \<longleftrightarrow> u + 1 \<ge> mx"
          using del kin False Some v by simp
        with False Some v kin show ?thesis
          by (simp add: map_of_reset_observed map_of_delete_keys look)
      qed
    qed
  qed
  with res dist True show ?thesis by auto
qed

lemma update_table_rows_mem:
  "(n, u, nm) \<in> set (update_table_rows rows new mx inc) \<longleftrightarrow>
     (if n \<in> set new then
        u = 0 \<and> nm = (case map_of (dict_of_rows rows) n of Some (u', nm') \<Rightarrow> nm' | None \<Rightarrow> [])
      else if inc then
        (\<exists>u'. map_of (dict_of_rows rows) n = Some (u', nm) \<and> u = u' + 1 \<and> u < mx)
      else map_of (dict_of_rows rows) n = Some (u, nm))"
proof -
  obtain d where d: "update_table_rows rows new mx inc = rows_of_dict d"
    "distinct (map fst d)"
    "\<And>k. map_of d k =
          (if k \<in> set new then
             Some (0, case map_of (dict_of_rows rows) k of Some (u, nm) \<Rightarrow> nm | None \<Rightarrow> [])
           else if inc then
             (case map_of (dict_of_rows rows) k of
                None \<Rightarrow> None
              | Some (u, nm) \<Rightarrow> if u + 1 \<ge> mx then None else Some (u + 1, nm))
           else map_of (dict_of_rows rows) k)"
    using update_table_rows_dict [of rows new mx inc] by blast
  show ?thesis
    unfolding d(1) mem_rows_of_dict [OF d(2)] d(3)
    by (auto split: option.splits)
qed

lemma strictly_ascending_update_table_rows:
  "strictly_ascending (update_table_rows rows new mx inc)"
  using update_table_rows_dict [of rows new mx inc]
  by (auto simp: strictly_ascending_rows_of_dict)

subsection \<open>Tables with unique numbers\<close>





lemma strictly_ascending_iff:
  "strictly_ascending rows \<longleftrightarrow> sorted (map num rows) \<and> distinct (map num rows)"
  by (simp add: strictly_ascending_def strict_sorted_iff)

text \<open>The working map of \<open>set_single_rows\<close> before it is turned into rows.\<close>

lemma set_single_rows_dict:
  "\<exists>d. set_single_rows rows n nu name mx = rows_of_dict d \<and> distinct (map fst d) \<and>
       (\<forall>k. map_of d k =
          (if k = n then
             (if nu \<ge> mx then None
              else Some (nu, case map_of (dict_of_rows rows) n of
                               None \<Rightarrow> name
                             | Some (u, old) \<Rightarrow> if name \<noteq> [] then name else old))
           else map_of (dict_of_rows rows) k))"
proof -
  let ?orig = "dict_of_rows rows"
  have dk: "distinct (map fst ?orig)" by (rule distinct_dict_of_rows)
  show ?thesis
  proof (cases "nu \<ge> mx")
    case True
    let ?res = "if map_of ?orig n \<noteq> None then AList.delete n ?orig else ?orig"
    have "set_single_rows rows n nu name mx = rows_of_dict ?res"
      using True unfolding set_single_rows_def Let_def by (simp only: if_True)
    moreover have "distinct (map fst ?res)"
      using dk by (simp add: distinct_delete)
    moreover have "\<forall>k. map_of ?res k = (if k = n then None else map_of ?orig k)"
      by (cases "map_of ?orig n") (auto simp: delete_conv')
    ultimately have "set_single_rows rows n nu name mx = rows_of_dict ?res \<and> distinct (map fst ?res) \<and>
       (\<forall>k. map_of ?res k =
          (if k = n then
             (if nu \<ge> mx then None
              else Some (nu, case map_of (dict_of_rows rows) n of
                               None \<Rightarrow> name
                             | Some (u, old) \<Rightarrow> if name \<noteq> [] then name else old))
           else map_of (dict_of_rows rows) k))"
      using True by simp
    then show ?thesis by (rule exI [of _ ?res])
  next
    case False
    let ?v = "(nu, case map_of ?orig n of None \<Rightarrow> name
                   | Some (u, old) \<Rightarrow> if name \<noteq> [] then name else old)"
    let ?res = "AList.update n ?v ?orig"
    have "set_single_rows rows n nu name mx = rows_of_dict ?res"
      using False by (auto simp: set_single_rows_def split: option.splits)
    moreover have "distinct (map fst ?res)"
      using dk by (rule distinct_update)
    moreover have "\<forall>k. map_of ?res k = (if k = n then Some ?v else map_of ?orig k)"
      by (simp add: update_conv')
    ultimately have "set_single_rows rows n nu name mx = rows_of_dict ?res \<and> distinct (map fst ?res) \<and>
       (\<forall>k. map_of ?res k =
          (if k = n then
             (if nu \<ge> mx then None
              else Some (nu, case map_of (dict_of_rows rows) n of
                               None \<Rightarrow> name
                             | Some (u, old) \<Rightarrow> if name \<noteq> [] then name else old))
           else map_of (dict_of_rows rows) k))"
      using False by simp
    then show ?thesis by (rule exI [of _ ?res])
  qed
qed

lemma set_single_rows_mem:
  "(k, u, nm) \<in> set (set_single_rows rows n nu name mx) \<longleftrightarrow>
     (if k = n then
        nu < mx \<and> u = nu \<and>
        nm = (case map_of (dict_of_rows rows) n of
                None \<Rightarrow> name
              | Some (u', old) \<Rightarrow> if name \<noteq> [] then name else old)
      else map_of (dict_of_rows rows) k = Some (u, nm))"
proof -
  obtain d where d: "set_single_rows rows n nu name mx = rows_of_dict d"
    "distinct (map fst d)"
    "\<And>k. map_of d k =
          (if k = n then
             (if nu \<ge> mx then None
              else Some (nu, case map_of (dict_of_rows rows) n of
                               None \<Rightarrow> name
                             | Some (u, old) \<Rightarrow> if name \<noteq> [] then name else old))
           else map_of (dict_of_rows rows) k)"
    using set_single_rows_dict [of rows n nu name mx] by blast
  show ?thesis
    unfolding d(1) mem_rows_of_dict [OF d(2)] d(3)
    by auto
qed

lemma strictly_ascending_set_single_rows:
  "strictly_ascending (set_single_rows rows n nu name mx)"
  using set_single_rows_dict [of rows n nu name mx]
  by (auto simp: strictly_ascending_rows_of_dict)

lemma get_table_set_single_entry:
  "get_table (set_single_entry tables key n nu name mx) key
     = set_single_rows (get_table tables key) n nu name mx"
  by (simp add: set_single_entry_def get_table_def)

section \<open>Properties of the reconciliation engine\<close>

text \<open>
  C2. Expiry under the increment policy. Let the working map built from the table hold
  the count \<open>u\<close> and the name \<open>nm\<close> for the number \<open>n\<close> (in a table with unique numbers:
  the record \<open>(n, u, nm)\<close> is in the table, lemma \<open>dict_of_rows_distinct\<close>), and let \<open>n\<close>
  not be observed. Then Bulk Reconcile with \<open>increment_absent = True\<close> keeps exactly one
  record for \<open>n\<close>, with the count \<open>u + 1\<close> and the same name, when \<open>u + 1\<close> is below the
  threshold, and no record for \<open>n\<close> at all when \<open>u + 1\<close> reaches or exceeds it. With the
  threshold 3, a count of 2 is removed and a count of 0 becomes 1 and stays.
\<close>

theorem expiry_removal_increment_policy:
  assumes "map_of (dict_of_rows rows) n = Some (u, nm)" and "n \<notin> set observed"
  shows "(u + 1 < expiry \<longrightarrow>
            (\<forall>u' nm'. (n, u', nm') \<in> set (update_table_rows rows observed expiry True)
                \<longleftrightarrow> u' = u + 1 \<and> nm' = nm))
       \<and> (u + 1 \<ge> expiry \<longrightarrow>
            (\<forall>u' nm'. (n, u', nm') \<notin> set (update_table_rows rows observed expiry True)))
       \<and> (u = 2 \<longrightarrow> (\<forall>u' nm'. (n, u', nm') \<notin> set (update_table_rows rows observed 3 True)))
       \<and> (u = 0 \<longrightarrow> (\<forall>u' nm'. (n, u', nm') \<in> set (update_table_rows rows observed 3 True)
                \<longleftrightarrow> u' = 1 \<and> nm' = nm))"
  using assms by (auto simp: update_table_rows_mem)

theorem expiry_removal_increment_policy_witness:
  "map_of (dict_of_rows [(5, 2, [97]), (7, 0, [98])]) 5 = Some (2, [97])
   \<and> map_of (dict_of_rows [(5, 2, [97]), (7, 0, [98])]) 7 = Some (0, [98])
   \<and> 5 \<notin> set ([] :: int list) \<and> 7 \<notin> set ([] :: int list)
   \<and> (\<forall>u' nm'. (5, u', nm') \<notin> set (update_table_rows [(5, 2, [97]), (7, 0, [98])] [] 3 True))
   \<and> (\<forall>u' nm'. (7, u', nm') \<in> set (update_table_rows [(5, 2, [97]), (7, 0, [98])] [] 3 True)
         \<longleftrightarrow> u' = 1 \<and> nm' = [98])"
proof -
  have a: "map_of (dict_of_rows [(5, 2, [97]), (7, 0, [98])]) 5 = Some (2, [97])"
    and b: "map_of (dict_of_rows [(5, 2, [97]), (7, 0, [98])]) 7 = Some (0, [98])"
    by (simp_all add: dict_of_rows_def)
  have c: "5 \<notin> set ([] :: int list)" and d: "7 \<notin> set ([] :: int list)" by simp_all
  show ?thesis
    using a b expiry_removal_increment_policy [OF a c, of 3]
      expiry_removal_increment_policy [OF b d, of 3]
    by simp
qed

text \<open>
  C5. Reset on report. For every table, every threshold and either policy, an observed
  number \<open>n\<close> has exactly one record in the result of Bulk Reconcile: its count is 0, and
  its name is the one the working map held for \<open>n\<close>, or the empty name when \<open>n\<close> is new.
\<close>

theorem reset_on_report:
  assumes "n \<in> set observed"
  shows "\<forall>u nm. (n, u, nm) \<in> set (update_table_rows rows observed expiry increment_absent)
           \<longleftrightarrow> u = 0 \<and> nm = (case map_of (dict_of_rows rows) n of
                                 Some (old_unused, old_name) \<Rightarrow> old_name
                               | None \<Rightarrow> [])"
  using assms by (simp add: update_table_rows_mem)

theorem reset_on_report_witness:
  "7 \<in> set [7, 11 :: int] \<and> 11 \<in> set [7, 11 :: int]
   \<and> (\<forall>u nm. (7, u, nm) \<in> set (update_table_rows [(5, 1, [97]), (7, 2, [98])] [7, 11] 3 True)
         \<longleftrightarrow> u = 0 \<and> nm = [98])
   \<and> (\<forall>u nm. (11, u, nm) \<in> set (update_table_rows [(5, 1, [97]), (7, 2, [98])] [7, 11] 3 False)
         \<longleftrightarrow> u = 0 \<and> nm = [])"
proof -
  have a: "7 \<in> set [7, 11 :: int]" and b: "11 \<in> set [7, 11 :: int]" by simp_all
  have c: "map_of (dict_of_rows [(5, 1, [97]), (7, 2, [98])]) 7 = Some (2, [98])"
    and d: "map_of (dict_of_rows [(5, 1, [97]), (7, 2, [98])]) 11 = None"
    by (simp_all add: dict_of_rows_def)
  show ?thesis
    using c d reset_on_report [OF a, of "[(5, 1, [97]), (7, 2, [98])]" 3 True]
      reset_on_report [OF b, of "[(5, 1, [97]), (7, 2, [98])]" 3 False]
    by simp
qed



text \<open>
  C7. Name preservation on upsert. Let the working map built from the table \<open>key\<close> hold
  a record for \<open>n\<close> with the name \<open>old_name\<close>, and let the supplied count be below the
  threshold. After Single Upsert the table has exactly one record for \<open>n\<close>, with the
  supplied count; its name is \<open>old_name\<close> when the supplied name is empty and the supplied
  name otherwise.
\<close>

theorem upsert_name_preservation:
  assumes "map_of (dict_of_rows (get_table tables key)) n = Some (old_unused, old_name)"
    and "new_unused < expiry"
  shows "\<forall>u nm. (n, u, nm) \<in> set (get_table (set_single_entry tables key n new_unused name expiry) key)
           \<longleftrightarrow> u = new_unused \<and> nm = (if name = [] then old_name else name)"
  using assms by (auto simp: get_table_set_single_entry set_single_rows_mem)

theorem upsert_name_preservation_witness:
  "map_of (dict_of_rows (get_table [key_C1 \<mapsto> [(5, 2, [97])]] key_C1)) 5 = Some (2, [97])
   \<and> (1 :: int) < 3
   \<and> (\<forall>u nm. (5, u, nm) \<in> set (get_table (set_single_entry [key_C1 \<mapsto> [(5, 2, [97])]] key_C1 5 1 [] 3) key_C1)
         \<longleftrightarrow> u = 1 \<and> nm = [97])
   \<and> (\<forall>u nm. (5, u, nm) \<in> set (get_table (set_single_entry [key_C1 \<mapsto> [(5, 2, [97])]] key_C1 5 1 [98] 3) key_C1)
         \<longleftrightarrow> u = 1 \<and> nm = [98])"
proof -
  have a: "map_of (dict_of_rows (get_table [key_C1 \<mapsto> [(5, 2, [97])]] key_C1)) 5 = Some (2, [97])"
    by (simp add: dict_of_rows_def get_table_def)
  have b: "(1 :: int) < 3" by simp
  show ?thesis
    using a upsert_name_preservation [OF a b, of "[]"] upsert_name_preservation [OF a b, of "[98]"]
    by simp
qed

section \<open>Properties of the reader\<close>

lemmas reader_eval =
  read_table_def read_tables_from_txt_def file_lines_def is_side_by_side_def
  side_by_side_line_def sequential_line_def add_parsed_def append_row_def get_table_def
  sort_tables_def strip_def py_split_def re_split_def sep_len_def isspace_ch_def
  space_ranges_def str_isspace_def key_C1_def key_C2_def marker_def parse_entry_tokens_def
  char_class_defs py_int_def Let_def num_def

lemma key_C1_neq_C2: "key_C1 \<noteq> key_C2"
  by (simp add: key_C1_def key_C2_def)

lemma get_table_sort_tables:
  "get_table (sort_tables tables) key =
     (if key = key_C1 \<or> key = key_C2 then sort_key num (get_table tables key)
      else get_table tables key)"
  using key_C1_neq_C2 by (auto simp: sort_tables_def get_table_def Let_def)

lemma read_tables_sorted:
  assumes "read_tables_from_txt text = Inr tables"
  shows "ascending (get_table tables key_C1) \<and> ascending (get_table tables key_C2)"
proof -
  from assms obtain t where "tables = sort_tables t"
    by (auto simp: read_tables_from_txt_def Let_def split: if_splits sum.splits prod.splits)
  then show ?thesis
    by (simp add: get_table_sort_tables ascending_def)
qed

subsection \<open>The numbers and counts that are read are not negative\<close>

lemma all_rows_append_row:
  "all_rows P tables \<Longrightarrow> P r \<Longrightarrow> all_rows P (append_row tables key r)"
  by (auto simp: all_rows_def append_row_def get_table_def split: option.splits)

lemma all_rows_add_parsed:
  assumes "all_rows (\<lambda>r. 0 \<le> num r \<and> 0 \<le> unused r) tables"
    and "add_parsed tables key toks = Inr tables'"
  shows "all_rows (\<lambda>r. 0 \<le> num r \<and> 0 \<le> unused r) tables'"
proof (cases "parse_entry_tokens toks")
  case (Inl e)
  with assms(2) show ?thesis by (simp add: add_parsed_def)
next
  case (Inr res)
  show ?thesis
  proof (cases res)
    case None
    with Inr assms show ?thesis by (simp add: add_parsed_def)
  next
    case (Some r)
    with Inr have "0 \<le> num r \<and> 0 \<le> unused r"
      by (simp add: parse_entry_tokens_nonneg)
    with Some Inr assms show ?thesis
      by (auto simp: add_parsed_def intro: all_rows_append_row)
  qed
qed

lemma all_rows_side_by_side_line:
  assumes "all_rows (\<lambda>r. 0 \<le> num r \<and> 0 \<le> unused r) tables"
    and "side_by_side_line tables raw_line = Inr tables'"
  shows "all_rows (\<lambda>r. 0 \<le> num r \<and> 0 \<le> unused r) tables'"
  using assms
  by (auto simp: side_by_side_line_def Let_def split: if_splits sum.splits
           dest: all_rows_add_parsed)

lemma all_rows_read_side_by_side:
  "all_rows (\<lambda>r. 0 \<le> num r \<and> 0 \<le> unused r) tables \<Longrightarrow>
     read_side_by_side tables lines = Inr tables' \<Longrightarrow>
     all_rows (\<lambda>r. 0 \<le> num r \<and> 0 \<le> unused r) tables'"
  by (induction lines arbitrary: tables)
     (auto split: sum.splits dest: all_rows_side_by_side_line)

lemma all_rows_sequential_line:
  assumes "all_rows (\<lambda>r. 0 \<le> num r \<and> 0 \<le> unused r) tables"
    and "sequential_line (tables, cur) ln = Inr (tables', cur')"
  shows "all_rows (\<lambda>r. 0 \<le> num r \<and> 0 \<le> unused r) tables'"
  using assms
  by (auto simp: sequential_line_def Let_def split: if_splits sum.splits option.splits
           dest: all_rows_add_parsed)

lemma all_rows_read_sequential:
  "all_rows (\<lambda>r. 0 \<le> num r \<and> 0 \<le> unused r) tables \<Longrightarrow>
     read_sequential (tables, cur) lines = Inr (tables', cur') \<Longrightarrow>
     all_rows (\<lambda>r. 0 \<le> num r \<and> 0 \<le> unused r) tables'"
proof (induction lines arbitrary: tables cur)
  case Nil
  then show ?case by simp
next
  case (Cons ln lines)
  from Cons.prems(2) obtain t c where step: "sequential_line (tables, cur) ln = Inr (t, c)"
    and rest: "read_sequential (t, c) lines = Inr (tables', cur')"
    by (auto split: sum.splits)
  from all_rows_sequential_line [OF Cons.prems(1) step] rest show ?case
    by (rule Cons.IH)
qed

lemma all_rows_sort_tables: "all_rows P tables \<Longrightarrow> all_rows P (sort_tables tables)"
  by (simp add: all_rows_def get_table_sort_tables list_all_iff)

lemma read_tables_nonneg:
  assumes "read_tables_from_txt text = Inr tables"
  shows "all_rows (\<lambda>r. 0 \<le> num r \<and> 0 \<le> unused r) tables"
proof -
  let ?init = "[key_C1 \<mapsto> [], key_C2 \<mapsto> []] :: roster"
  have init: "all_rows (\<lambda>r. 0 \<le> num r \<and> 0 \<le> unused r) ?init"
    by (simp add: all_rows_def get_table_def)
  from assms consider
      t where "read_side_by_side ?init (file_lines text) = Inr t" "tables = sort_tables t"
    | t c where "read_sequential (?init, None) (file_lines text) = Inr (t, c)" "tables = sort_tables t"
    by (auto simp: read_tables_from_txt_def Let_def split: if_splits sum.splits prod.splits)
  then show ?thesis
  proof cases
    case 1
    with all_rows_read_side_by_side [OF init] show ?thesis
      by (simp add: all_rows_sort_tables)
  next
    case 2
    with all_rows_read_sequential [OF init] show ?thesis
      by (simp add: all_rows_sort_tables)
  qed
qed

lemma read_table_sorted:
  assumes "read_table text key = Inr rows" and "key = key_C1 \<or> key = key_C2"
  shows "ascending rows"
proof -
  from assms(1) obtain tables where "read_tables_from_txt text = Inr tables"
    and "rows = get_table tables key"
    by (auto simp: read_table_def split: sum.splits)
  with read_tables_sorted [of "text" tables] assms(2) show ?thesis by auto
qed

lemma read_table_nonneg:
  assumes "read_table text key = Inr rows" and "r \<in> set rows"
  shows "0 \<le> num r \<and> 0 \<le> unused r"
proof -
  from assms(1) obtain tables where "read_tables_from_txt text = Inr tables"
    and "rows = get_table tables key"
    by (auto simp: read_table_def split: sum.splits)
  with read_tables_nonneg [of "text" tables] assms(2) show ?thesis
    by (auto simp: all_rows_def list_all_iff)
qed

subsection \<open>Bulk Delete\<close>

lemma strictly_ascending_sort_key:
  assumes "distinct (map num rows)"
  shows "strictly_ascending (sort_key num rows)"
proof -
  from assms have "distinct (map num (sort_key num rows))"
    by (simp add: distinct_map)
  moreover have "sorted (map num (sort_key num rows))" by simp
  ultimately show ?thesis by (simp add: strictly_ascending_iff)
qed

lemma ascending_delete_rows: "ascending (delete_rows rows nums)"
  by (simp add: ascending_def delete_rows_def)

lemma strictly_ascending_delete_rows:
  "distinct (map num rows) \<Longrightarrow> strictly_ascending (delete_rows rows nums)"
  unfolding delete_rows_def
  by (rule strictly_ascending_sort_key) (simp add: distinct_map_filter)

lemma get_table_delete_entry:
  "get_table (delete_entry tables key nums) key =
     (if nums = [] then get_table tables key else delete_rows (get_table tables key) nums)"
  by (simp add: delete_entry_def get_table_def)

lemma set_delete_rows: "set (delete_rows rows nums) = {r \<in> set rows. num r \<notin> set nums}"
  by (auto simp: delete_rows_def)

section \<open>Invariants of the tables\<close>

text \<open>
  C3 as the specification states it, that the tables read from the roster text are
  strictly ascending too, fails: the reader keeps every record it reads, so a number that
  the text lists twice is twice in the table. The sequential text of the three lines
  \<open>C1\<close>, \<open>5\<close>, \<open>5\<close> gives the table C1 two records with the number 5.
\<close>

theorem sort_invariant_counterexample:
  "read_table [67, 49, 10, 53, 10, 53, 10] key_C1 = Inr [(5, 0, []), (5, 0, [])]
   \<and> \<not> strictly_ascending [(5, 0, []), (5, 0, [])]"
  by (simp add: reader_eval strictly_ascending_def)

text \<open>
  C3, amended. The result of Bulk Reconcile, under either policy, and the table that Single
  Upsert stores are strictly ascending by number, whatever the table was before.
  Bulk Delete with at least one number gives an ascending table, and with no number it
  leaves the table as it is; its result is strictly ascending when the numbers of the
  table were unique. The tables C1 and C2 read from a roster text are ascending by number;
  records that share a number are all kept.
\<close>

theorem sort_invariant_amended:
  "strictly_ascending (update_table_rows rows observed expiry increment_absent)
   \<and> strictly_ascending (get_table (set_single_entry tables key n new_unused name expiry) key)
   \<and> (nums \<noteq> [] \<or> ascending (get_table tables key)
        \<longrightarrow> ascending (get_table (delete_entry tables key nums) key))
   \<and> (distinct (map num (get_table tables key)) \<and> (nums \<noteq> [] \<or> ascending (get_table tables key))
        \<longrightarrow> strictly_ascending (get_table (delete_entry tables key nums) key))
   \<and> ((key = key_C1 \<or> key = key_C2) \<and> read_table text key = Inr rows' \<longrightarrow> ascending rows')"
proof -
  have del1: "nums \<noteq> [] \<or> ascending (get_table tables key)
        \<longrightarrow> ascending (get_table (delete_entry tables key nums) key)"
    by (simp add: get_table_delete_entry ascending_delete_rows)
  have del2: "distinct (map num (get_table tables key)) \<and> (nums \<noteq> [] \<or> ascending (get_table tables key))
        \<longrightarrow> strictly_ascending (get_table (delete_entry tables key nums) key)"
  proof (cases "nums = []")
    case True
    then show ?thesis
      by (simp add: get_table_delete_entry strictly_ascending_iff ascending_def)
  next
    case False
    then show ?thesis
      by (simp add: get_table_delete_entry strictly_ascending_delete_rows)
  qed
  have rd: "(key = key_C1 \<or> key = key_C2) \<and> read_table text key = Inr rows' \<longrightarrow> ascending rows'"
    using read_table_sorted [of "text" key rows'] by blast
  show ?thesis
    using del1 del2 rd
    by (simp add: strictly_ascending_update_table_rows get_table_set_single_entry
          strictly_ascending_set_single_rows)
qed

theorem sort_invariant_amended_witness:
  "[5 :: int] \<noteq> []
   \<and> distinct (map num (get_table [key_C1 \<mapsto> [(7, 0, []), (5, 1, [97])]] key_C1))
   \<and> read_table [67, 49, 10, 55, 10, 53, 10, 53, 10] key_C1 = Inr [(5, 0, []), (5, 0, []), (7, 0, [])]
   \<and> strictly_ascending (update_table_rows [(7, 0, []), (5, 1, [97]), (7, 2, [])] [9] 3 False)
   \<and> strictly_ascending
        (get_table (set_single_entry [key_C1 \<mapsto> [(7, 0, []), (5, 1, [97])]] key_C1 6 1 [] 3) key_C1)
   \<and> strictly_ascending
        (get_table (delete_entry [key_C1 \<mapsto> [(7, 0, []), (5, 1, [97])]] key_C1 [5]) key_C1)
   \<and> ascending [(5, 0, []), (5, 0, []), (7, 0, [])]"
proof -
  have a: "[5 :: int] \<noteq> []" by simp
  have b: "distinct (map num (get_table [key_C1 \<mapsto> [(7, 0, []), (5, 1, [97])]] key_C1))"
    by (simp add: get_table_def num_def)
  have c: "read_table [67, 49, 10, 55, 10, 53, 10, 53, 10] key_C1
      = Inr [(5, 0, []), (5, 0, []), (7, 0, [])]"
    by (simp add: reader_eval)
  show ?thesis
    using a b c
      sort_invariant_amended [of "[(7, 0, []), (5, 1, [97]), (7, 2, [])]" "[9]" 3 False
        "[key_C1 \<mapsto> [(7, 0, []), (5, 1, [97])]]" key_C1 6 1 "[]" "[5]"
        "[67, 49, 10, 55, 10, 53, 10, 53, 10]" "[(5, 0, []), (5, 0, []), (7, 0, [])]"]
    by simp
qed

text \<open>
  C4 as the specification states it, that no operation ever produces a record with a count
  at or above the threshold, fails: the reader takes the count as the text gives it, and
  the freeze policy leaves it. With the threshold 3, the sequential text of the two lines
  \<open>C1\<close> and \<open>5 7\<close> gives the record \<open>(5, 7, "")\<close>, and Bulk Reconcile under the freeze
  policy returns it unchanged.
\<close>

theorem idle_bound_counterexample:
  "read_table [67, 49, 10, 53, 32, 55, 10] key_C1 = Inr [(5, 7, [])]
   \<and> update_table_rows [(5, 7, [])] [] 3 False = [(5, 7, [])]
   \<and> \<not> idle_bounded 3 [(5, 7, [])]"
  by (simp add: reader_eval idle_bounded_def unused_def update_table_rows_def dict_of_rows_def
        rows_of_dict_def)

text \<open>
  C4, amended. With a threshold above 0, every record of the result of Bulk Reconcile
  under the increment policy has a count below the threshold, and a count of at least 0
  when the counts of the table were. Bulk Reconcile under the freeze policy (with a
  threshold above 0), Single Upsert (with a supplied count of at least 0) and Bulk Delete
  keep the bound when the table they start from satisfies it. The reader gives counts of
  at least 0; it does not compare them with the threshold.
\<close>

theorem idle_bound_amended:
  "(0 < expiry \<and> (\<forall>r \<in> set rows. 0 \<le> unused r)
      \<longrightarrow> idle_bounded expiry (update_table_rows rows observed expiry True))
   \<and> (0 < expiry \<longrightarrow> (\<forall>r \<in> set (update_table_rows rows observed expiry True). unused r < expiry))
   \<and> (0 < expiry \<and> idle_bounded expiry rows
      \<longrightarrow> idle_bounded expiry (update_table_rows rows observed expiry False))
   \<and> (0 \<le> new_unused \<and> idle_bounded expiry (get_table tables key)
      \<longrightarrow> idle_bounded expiry (get_table (set_single_entry tables key n new_unused name expiry) key))
   \<and> (idle_bounded expiry (get_table tables key)
      \<longrightarrow> idle_bounded expiry (get_table (delete_entry tables key nums) key))
   \<and> (read_table text key' = Inr rows' \<longrightarrow> (\<forall>r \<in> set rows'. 0 \<le> unused r))"
proof -
  have inc_lt: "0 < expiry \<longrightarrow> (\<forall>r \<in> set (update_table_rows rows observed expiry True). unused r < expiry)"
  proof (intro impI ballI)
    fix r assume e: "0 < expiry" and r: "r \<in> set (update_table_rows rows observed expiry True)"
    obtain k u nm where req [simp]: "r = (k, u, nm)" by (cases r)
    from r e show "unused r < expiry"
      by (auto simp: update_table_rows_mem unused_def split: if_splits)
  qed
  have inc: "0 < expiry \<and> (\<forall>r \<in> set rows. 0 \<le> unused r)
      \<longrightarrow> idle_bounded expiry (update_table_rows rows observed expiry True)"
  proof (intro impI)
    assume h: "0 < expiry \<and> (\<forall>r \<in> set rows. 0 \<le> unused r)"
    have "\<And>r. r \<in> set (update_table_rows rows observed expiry True) \<Longrightarrow> 0 \<le> unused r"
    proof -
      fix r assume r: "r \<in> set (update_table_rows rows observed expiry True)"
      obtain k u nm where req [simp]: "r = (k, u, nm)" by (cases r)
      from r h show "0 \<le> unused r"
        by (auto simp: update_table_rows_mem unused_def split: if_splits
              dest!: dict_of_rows_SomeD)
    qed
    with inc_lt h show "idle_bounded expiry (update_table_rows rows observed expiry True)"
      by (auto simp: idle_bounded_def list_all_iff)
  qed
  have frz: "0 < expiry \<and> idle_bounded expiry rows
      \<longrightarrow> idle_bounded expiry (update_table_rows rows observed expiry False)"
  proof (intro impI)
    assume h: "0 < expiry \<and> idle_bounded expiry rows"
    have "\<And>r. r \<in> set (update_table_rows rows observed expiry False)
        \<Longrightarrow> 0 \<le> unused r \<and> unused r < expiry"
    proof -
      fix r assume r: "r \<in> set (update_table_rows rows observed expiry False)"
      obtain k u nm where req [simp]: "r = (k, u, nm)" by (cases r)
      from r h show "0 \<le> unused r \<and> unused r < expiry"
        by (auto simp: update_table_rows_mem unused_def idle_bounded_def list_all_iff
              split: if_splits dest!: dict_of_rows_SomeD)
    qed
    then show "idle_bounded expiry (update_table_rows rows observed expiry False)"
      by (auto simp: idle_bounded_def list_all_iff)
  qed
  have ups: "0 \<le> new_unused \<and> idle_bounded expiry (get_table tables key)
      \<longrightarrow> idle_bounded expiry (get_table (set_single_entry tables key n new_unused name expiry) key)"
  proof (intro impI)
    assume h: "0 \<le> new_unused \<and> idle_bounded expiry (get_table tables key)"
    have "\<And>r. r \<in> set (set_single_rows (get_table tables key) n new_unused name expiry)
        \<Longrightarrow> 0 \<le> unused r \<and> unused r < expiry"
    proof -
      fix r assume r: "r \<in> set (set_single_rows (get_table tables key) n new_unused name expiry)"
      obtain k u nm where req [simp]: "r = (k, u, nm)" by (cases r)
      from r h show "0 \<le> unused r \<and> unused r < expiry"
        by (auto simp: set_single_rows_mem unused_def idle_bounded_def list_all_iff
              split: if_splits dest!: dict_of_rows_SomeD)
    qed
    then show "idle_bounded expiry (get_table (set_single_entry tables key n new_unused name expiry) key)"
      by (auto simp: idle_bounded_def list_all_iff get_table_set_single_entry)
  qed
  have del: "idle_bounded expiry (get_table tables key)
      \<longrightarrow> idle_bounded expiry (get_table (delete_entry tables key nums) key)"
    by (auto simp: idle_bounded_def list_all_iff get_table_delete_entry set_delete_rows)
  have rd: "read_table text key' = Inr rows' \<longrightarrow> (\<forall>r \<in> set rows'. 0 \<le> unused r)"
    using read_table_nonneg [of "text" key' rows'] by blast
  from inc inc_lt frz ups del rd show ?thesis by blast
qed

theorem idle_bound_amended_witness:
  "(0 :: int) < 3 \<and> (0 :: int) \<le> 1
   \<and> idle_bounded 3 [(5, 2, [97]), (7, 0, [])]
   \<and> idle_bounded 3 (get_table [key_C1 \<mapsto> [(5, 2, [97]), (7, 0, [])]] key_C1)
   \<and> read_table [67, 49, 10, 53, 32, 55, 10] key_C1 = Inr [(5, 7, [])]
   \<and> idle_bounded 3 (update_table_rows [(5, 2, [97]), (7, 0, [])] [9] 3 True)
   \<and> idle_bounded 3 (update_table_rows [(5, 2, [97]), (7, 0, [])] [9] 3 False)
   \<and> idle_bounded 3 (get_table (set_single_entry [key_C1 \<mapsto> [(5, 2, [97]), (7, 0, [])]] key_C1 7 1 [] 3) key_C1)
   \<and> idle_bounded 3 (get_table (delete_entry [key_C1 \<mapsto> [(5, 2, [97]), (7, 0, [])]] key_C1 [5]) key_C1)
   \<and> list_all (\<lambda>r. 0 \<le> unused r) [(5, 7, [])]"
proof -
  have a: "(0 :: int) < 3" "(0 :: int) \<le> 1" by simp_all
  have b: "\<forall>r \<in> set [(5, 2, [97]), (7, 0, [])]. 0 \<le> unused r"
    "idle_bounded 3 [(5, 2, [97]), (7, 0, [])]"
    "idle_bounded 3 (get_table [key_C1 \<mapsto> [(5, 2, [97]), (7, 0, [])]] key_C1)"
    by (simp_all add: idle_bounded_def unused_def get_table_def)
  have c: "read_table [67, 49, 10, 53, 32, 55, 10] key_C1 = Inr [(5, 7, [])]"
    by (simp add: reader_eval)
  show ?thesis
    using a b c
      idle_bound_amended [of 3 "[(5, 2, [97]), (7, 0, [])]" "[9]" 1
        "[key_C1 \<mapsto> [(5, 2, [97]), (7, 0, [])]]" key_C1 7 "[]" "[5]"
        "[67, 49, 10, 53, 32, 55, 10]" key_C1 "[(5, 7, [])]"]
    by simp
qed

section \<open>The header marker in record lines\<close>

lemma startswith_strip_marker:
  "startswith (strip ln) marker \<Longrightarrow> strip ln \<noteq> [] \<and> strip ln \<noteq> key_C1 \<and> strip ln \<noteq> key_C2"
  by (auto simp: marker_def key_C1_def key_C2_def)

text \<open>
  C10. In the side-by-side branch a line whose stripped text contains the marker (the
  two characters U+8F66 U+53F7) anywhere is skipped: the tables stay as they are, whatever
  else the line holds. In the sequential branch a line is skipped for the marker only when
  its stripped text starts with it; any other line that is not blank and no table name is
  tokenized and, under a current table, appended when it parses. The examples use the
  names U+738B U+8F66 U+53F7 (the marker inside the name) and U+8F66 U+53F7 U+738B (the
  marker in front): the tokens of the line "name 5 0" match the grammar of a record; the
  side-by-side text with that line and a second column \<open>6 0\<close> leaves both tables empty;
  the sequential text keeps the record with the marker inside the name and drops the
  one with the marker in front.
\<close>

theorem marker_line_skipping:
  "(contains marker (strip raw_line) \<longrightarrow> side_by_side_line tables raw_line = Inr tables)
   \<and> (startswith (strip ln) marker \<longrightarrow> sequential_line (tables, cur) ln = Inr (tables, cur))
   \<and> (strip ln \<noteq> [] \<and> strip ln \<noteq> key_C1 \<and> strip ln \<noteq> key_C2 \<and> \<not> startswith (strip ln) marker
        \<longrightarrow> sequential_line (tables, Some key) ln =
              (case add_parsed tables key (py_split (strip ln)) of
                 Inl e \<Rightarrow> Inl e
               | Inr tables' \<Rightarrow> Inr (tables', Some key)))
   \<and> parse_entry_tokens (py_split [29579, 36710, 21495, 32, 53, 32, 48])
        = Inr (Some (5, 0, [29579, 36710, 21495]))
   \<and> read_table [67, 49, 9, 9, 9, 67, 50, 10,
                  29579, 36710, 21495, 32, 53, 32, 48, 9, 9, 54, 32, 48, 10] key_C1 = Inr []
   \<and> read_table [67, 49, 9, 9, 9, 67, 50, 10,
                  29579, 36710, 21495, 32, 53, 32, 48, 9, 9, 54, 32, 48, 10] key_C2 = Inr []
   \<and> read_table [67, 49, 10, 29579, 36710, 21495, 32, 53, 32, 48, 10] key_C1
        = Inr [(5, 0, [29579, 36710, 21495])]
   \<and> read_table [67, 49, 10, 36710, 21495, 29579, 32, 53, 32, 48, 10] key_C1 = Inr []"
proof -
  have sbs: "contains marker (strip raw_line) \<longrightarrow> side_by_side_line tables raw_line = Inr tables"
    by (simp add: side_by_side_line_def Let_def)
  have seq1: "startswith (strip ln) marker \<longrightarrow> sequential_line (tables, cur) ln = Inr (tables, cur)"
    using startswith_strip_marker [of ln] by (simp add: sequential_line_def Let_def)
  have seq2: "strip ln \<noteq> [] \<and> strip ln \<noteq> key_C1 \<and> strip ln \<noteq> key_C2 \<and> \<not> startswith (strip ln) marker
        \<longrightarrow> sequential_line (tables, Some key) ln =
              (case add_parsed tables key (py_split (strip ln)) of
                 Inl e \<Rightarrow> Inl e
               | Inr tables' \<Rightarrow> Inr (tables', Some key))"
    by (simp add: sequential_line_def Let_def)
  have ex1: "parse_entry_tokens (py_split [29579, 36710, 21495, 32, 53, 32, 48])
        = Inr (Some (5, 0, [29579, 36710, 21495]))"
    by (simp add: reader_eval)
  have ex2: "read_table [67, 49, 9, 9, 9, 67, 50, 10,
                  29579, 36710, 21495, 32, 53, 32, 48, 9, 9, 54, 32, 48, 10] key_C1 = Inr []"
    by (simp add: reader_eval)
  have ex3: "read_table [67, 49, 9, 9, 9, 67, 50, 10,
                  29579, 36710, 21495, 32, 53, 32, 48, 9, 9, 54, 32, 48, 10] key_C2 = Inr []"
    by (simp add: reader_eval)
  have ex4: "read_table [67, 49, 10, 29579, 36710, 21495, 32, 53, 32, 48, 10] key_C1
        = Inr [(5, 0, [29579, 36710, 21495])]"
    by (simp add: reader_eval)
  have ex5: "read_table [67, 49, 10, 36710, 21495, 29579, 32, 53, 32, 48, 10] key_C1 = Inr []"
    by (simp add: reader_eval)
  from sbs seq1 seq2 ex1 ex2 ex3 ex4 ex5 show ?thesis by (intro conjI)
qed

theorem marker_line_skipping_witness:
  "contains marker (strip [29579, 36710, 21495, 32, 53, 32, 48, 9, 9, 54, 32, 48])
   \<and> startswith (strip [36710, 21495, 29579, 32, 53, 32, 48]) marker
   \<and> \<not> startswith (strip [29579, 36710, 21495, 32, 53, 32, 48]) marker
   \<and> strip [29579, 36710, 21495, 32, 53, 32, 48] \<noteq> []
   \<and> strip [29579, 36710, 21495, 32, 53, 32, 48] \<noteq> key_C1
   \<and> strip [29579, 36710, 21495, 32, 53, 32, 48] \<noteq> key_C2
   \<and> side_by_side_line Map.empty [29579, 36710, 21495, 32, 53, 32, 48, 9, 9, 54, 32, 48]
        = Inr Map.empty
   \<and> sequential_line (Map.empty, Some key_C1) [36710, 21495, 29579, 32, 53, 32, 48]
        = Inr (Map.empty, Some key_C1)
   \<and> sequential_line (Map.empty, Some key_C1) [29579, 36710, 21495, 32, 53, 32, 48]
        = Inr (append_row Map.empty key_C1 (5, 0, [29579, 36710, 21495]), Some key_C1)"
proof -
  have a: "contains marker (strip [29579, 36710, 21495, 32, 53, 32, 48, 9, 9, 54, 32, 48])"
    by (simp add: strip_def marker_def isspace_ch_def space_ranges_def in_ranges_def)
  have b: "startswith (strip [36710, 21495, 29579, 32, 53, 32, 48]) marker"
    by (simp add: strip_def marker_def isspace_ch_def space_ranges_def in_ranges_def)
  have c: "strip [29579, 36710, 21495, 32, 53, 32, 48] \<noteq> []
      \<and> strip [29579, 36710, 21495, 32, 53, 32, 48] \<noteq> key_C1
      \<and> strip [29579, 36710, 21495, 32, 53, 32, 48] \<noteq> key_C2
      \<and> \<not> startswith (strip [29579, 36710, 21495, 32, 53, 32, 48]) marker"
    by (simp add: strip_def marker_def isspace_ch_def space_ranges_def in_ranges_def
          key_C1_def key_C2_def)
  have d: "add_parsed Map.empty key_C1 (py_split (strip [29579, 36710, 21495, 32, 53, 32, 48]))
      = Inr (append_row Map.empty key_C1 (5, 0, [29579, 36710, 21495]))"
    by (simp add: add_parsed_def strip_def py_split_def isspace_ch_def space_ranges_def
          parse_entry_tokens_def char_class_defs py_int_def)
  have e: "side_by_side_line Map.empty [29579, 36710, 21495, 32, 53, 32, 48, 9, 9, 54, 32, 48]
        = Inr Map.empty"
    using a marker_line_skipping
      [of "[29579, 36710, 21495, 32, 53, 32, 48, 9, 9, 54, 32, 48]" Map.empty "[]" None key_C1]
    by blast
  have f: "sequential_line (Map.empty, Some key_C1) [36710, 21495, 29579, 32, 53, 32, 48]
        = Inr (Map.empty, Some key_C1)"
    using b marker_line_skipping
      [of "[]" Map.empty "[36710, 21495, 29579, 32, 53, 32, 48]" "Some key_C1" key_C1]
    by blast
  have g: "sequential_line (Map.empty, Some key_C1) [29579, 36710, 21495, 32, 53, 32, 48]
        = Inr (append_row Map.empty key_C1 (5, 0, [29579, 36710, 21495]), Some key_C1)"
    using c d marker_line_skipping
      [of "[]" Map.empty "[29579, 36710, 21495, 32, 53, 32, 48]" None key_C1]
    by simp
  from a b c e f g show ?thesis by (intro conjI) simp_all
qed

section \<open>Writing a roster and reading it back\<close>

subsection \<open>Digits\<close>











subsection \<open>Stripping, splitting and searching in lines of tokens\<close>

















subsection \<open>The marker in lines of tokens\<close>







subsection \<open>The line of one record\<close>









subsection \<open>One written line, read in the side-by-side branch\<close>









subsection \<open>The lines of the rows, read one after the other\<close>




subsection \<open>The written text as a list of lines\<close>








subsection \<open>The lines of a written text\<close>











subsection \<open>The fixed lines of the written text\<close>












subsection \<open>The round trip\<close>








end
